theory Spec2Isabelle
  imports Complex_Main
begin

section \<open>Data model\<close>

text \<open>
  The request and response structs of the service. Go strings are byte sequences, so a
  \<open>string\<close> here is the UTF-8 encoding of the source literal: an accented letter is two
  bytes.
\<close>

record OCRRequest =
  req_Key :: string
  req_URL :: string

record APIResponse =
  Key :: string
  StatusCode :: int
  Body :: string
  Err :: string

text \<open>The zero value of \<open>APIResponse\<close>, which \<open>make([]APIResponse, n)\<close> puts in every slot.\<close>

definition zero_APIResponse :: APIResponse where
  "zero_APIResponse = \<lparr>Key = [], StatusCode = 0, Body = [], Err = []\<rparr>"

text \<open>
  The error \<open>ctx.Err()\<close> returns once \<open>ctx.Done()\<close> is closed: one of the two errors of
  Go's context package, with the text \<open>Error()\<close> gives for it.
\<close>

datatype go_error = Canceled | DeadlineExceeded

fun error_text :: "go_error \<Rightarrow> string" where
  "error_text Canceled = ''context canceled''"
| "error_text DeadlineExceeded = ''context deadline exceeded''"

subsection \<open>Accented letters of the string literals\<close>

definition a_acute :: string where "a_acute = [CHR 0xC3, CHR 0xA1]"
definition e_acute :: string where "e_acute = [CHR 0xC3, CHR 0xA9]"
definition o_acute :: string where "o_acute = [CHR 0xC3, CHR 0xB3]"
definition u_acute :: string where "u_acute = [CHR 0xC3, CHR 0xBA]"

section \<open>The item processor: processOCR\<close>

text \<open>
  The values \<open>math/rand\<close> hands to one call of \<open>processOCR\<close>, in the order the code draws
  them: \<open>rand.Intn(3000)\<close>, \<open>rand.Intn(len(randomTexts))\<close>, \<open>rand.Float32()\<close>,
  \<open>rand.Intn(len(additionalWords))\<close> and \<open>rand.Intn(9999)\<close>. The float is the rational
  it denotes. The delay drawn (plus 1000 ms) only decides, together with the moment of
  cancellation, which branch of the \<open>select\<close> is taken; that branch is the input \<open>race\<close>
  below.
\<close>

record draws =
  d_delay :: nat
  d_text :: nat
  d_float :: rat
  d_word :: nat
  d_num :: nat

definition randomTexts :: "string list" where
  "randomTexts =
    [''Documento de identificaci'' @ o_acute @ ''n'',
     ''Pasaporte Rep'' @ u_acute @ ''blica Argentina'',
     ''Licencia de conducir'',
     ''Factura comercial No. 12345'',
     ''Certificado de nacimiento'',
     ''Contrato de trabajo'',
     ''Recibo de pago mensual'',
     ''Diploma universitario'',
     ''Tarjeta de cr'' @ e_acute @ ''dito VISA'',
     ''Boleta de servicios p'' @ u_acute @ ''blicos'']"

definition additionalWords :: "string list" where
  "additionalWords =
    [''validez'',
     ''expedici'' @ o_acute @ ''n'',
     ''n'' @ u_acute @ ''mero'',
     ''fecha'',
     ''c'' @ o_acute @ ''digo'',
     ''serie'',
     ''emisi'' @ o_acute @ ''n'']"

text \<open>
  \<open>rand.Intn(n)\<close> returns a value in \<open>[0, n)\<close> and \<open>rand.Float32()\<close> one in \<open>[0, 1)\<close>:
  the draws a call can really see.
\<close>

definition valid_draws :: "draws \<Rightarrow> bool" where
  "valid_draws d \<longleftrightarrow>
     d_delay d < 3000 \<and> d_text d < length randomTexts \<and>
     0 \<le> d_float d \<and> d_float d < 1 \<and>
     d_word d < length additionalWords \<and> d_num d < 9999"

text \<open>\<open>fmt.Sprintf("%d", n)\<close> for a non-negative \<open>n\<close>: its decimal digits.\<close>

definition digit_char :: "nat \<Rightarrow> char" where
  "digit_char d = ''0123456789'' ! d"

fun sprintf_d :: "nat \<Rightarrow> string" where
  "sprintf_d n = (if n < 10 then [digit_char n] else sprintf_d (n div 10) @ [digit_char (n mod 10)])"

text \<open>
  The \<open>select\<close> of \<open>processOCR\<close> waits on the timer and on \<open>ctx.Done()\<close>; which of the two
  it takes is decided by the clock and the scheduler, so the branch taken is an input.
\<close>

datatype race = DelayElapsed | CtxDoneFirst

text \<open>
  In \<open>rand.Float32() < 0.7\<close> both sides are \<open>float32\<close> values: the constant is rounded to the
  nearest one, \<open>11744051 / 2^24\<close>, and the comparison of the two values is exact.
\<close>

definition float32_0_7 :: rat where
  "float32_0_7 = 11744051 / 16777216"

definition synth_text :: "draws \<Rightarrow> string" where
  "synth_text d =
     (let selectedText = randomTexts ! d_text d in
      if d_float d < float32_0_7
      then selectedText @ '' '' @ (additionalWords ! d_word d) @ '' '' @ sprintf_d (d_num d + 1000)
      else selectedText)"

definition processOCR :: "go_error \<Rightarrow> race \<Rightarrow> draws \<Rightarrow> string \<Rightarrow> string \<Rightarrow> APIResponse \<times> go_error option" where
  "processOCR ctx_err won d key url =
     (case won of
        CtxDoneFirst \<Rightarrow>
          (\<lparr>Key = key, StatusCode = 408, Body = [],
            Err = ''Procesamiento cancelado por timeout''\<rparr>, Some ctx_err)
      | DelayElapsed \<Rightarrow>
          (\<lparr>Key = key, StatusCode = 200, Body = synth_text d, Err = []\<rparr>, None))"

section \<open>The batch orchestrator: processBatchOCR\<close>

text \<open>
  One goroutine per item: it runs \<open>processOCR\<close>, replaces the response by a 500 when the
  error is not nil, and sends the response tagged with the item's index.
\<close>

definition worker :: "go_error \<Rightarrow> nat \<Rightarrow> OCRRequest \<Rightarrow> race \<times> draws \<Rightarrow> nat \<times> APIResponse" where
  "worker ctx_err index req rd =
     (case processOCR ctx_err (fst rd) (snd rd) (req_Key req) (req_URL req) of
        (resp, Some err) \<Rightarrow>
          (index, \<lparr>Key = req_Key req, StatusCode = 500, Body = [], Err = error_text err\<rparr>)
      | (resp, None) \<Rightarrow> (index, resp))"

text \<open>
  \<open>for i, item := range items { go func(index, req) ... (i, item) }\<close>: the message each
  goroutine will send, in the order of the items.
\<close>

fun launch :: "go_error \<Rightarrow> nat \<Rightarrow> OCRRequest list \<Rightarrow> (race \<times> draws) list \<Rightarrow> (nat \<times> APIResponse) list" where
  "launch ctx_err i (item # items) (rd # rds) = worker ctx_err i item rd # launch ctx_err (Suc i) items rds"
| "launch ctx_err i _ _ = []"

text \<open>
  The inner loop of the cancellation branch:
  \<open>for j := i; j < len(items); j++ { if results[j].Key == "" { results[j] = ... } }\<close>.
\<close>

function backfill :: "OCRRequest list \<Rightarrow> nat \<Rightarrow> APIResponse list \<Rightarrow> APIResponse list" where
  "backfill items j results =
     (if j < length items
      then backfill items (Suc j)
             (if Key (results ! j) = []
              then results[j := \<lparr>Key = req_Key (items ! j), StatusCode = 408, Body = [],
                                 Err = ''Batch processing cancelled or timed out''\<rparr>]
              else results)
      else results)"
  by pat_completeness auto
termination
  by (relation "measure (\<lambda>(items, j, results). length items - j)") auto

declare backfill.simps [simp del]

text \<open>
  What the \<open>select\<close> of one iteration of the collecting loop takes: the message of the
  goroutine with the given number, or \<open>ctx.Done()\<close>.
\<close>

datatype event = Recv nat | CtxDone

text \<open>
  The collecting loop \<open>for i := 0; i < len(items); i++ { select ... }\<close>. The \<open>break\<close> of
  the cancellation branch leaves the \<open>select\<close> only, so the loop goes on with \<open>i + 1\<close>.
  The schedule lists what each \<open>select\<close> takes; the result is \<open>None\<close> when the schedule
  ends while the loop still waits. A message carries the index of the goroutine that sent
  it, below \<open>len(items)\<close>, so the write \<open>results[res.index] = *res.resp\<close> is in range.
\<close>

fun collect :: "OCRRequest list \<Rightarrow> (nat \<times> APIResponse) list \<Rightarrow> nat \<Rightarrow> event list \<Rightarrow> APIResponse list \<Rightarrow> APIResponse list option" where
  "collect items msgs i [] results = (if i < length items then None else Some results)"
| "collect items msgs i (e # es) results =
     (if i < length items
      then (case e of
              Recv k \<Rightarrow> collect items msgs (Suc i) es (results[fst (msgs ! k) := snd (msgs ! k)])
            | CtxDone \<Rightarrow> collect items msgs (Suc i) es (backfill items i results))
      else Some results)"

definition processBatchOCR :: "go_error \<Rightarrow> OCRRequest list \<Rightarrow> (race \<times> draws) list \<Rightarrow> event list \<Rightarrow> APIResponse list option" where
  "processBatchOCR ctx_err items rds sched =
     collect items (launch ctx_err 0 items rds) 0 sched (replicate (length items) zero_APIResponse)"

text \<open>
  The schedules the runtime can produce for a batch of \<open>n\<close> items: one event per
  iteration, every received message sent by one of the \<open>n\<close> goroutines and received at
  most once, and, while the context is not cancelled, no \<open>ctx.Done()\<close> and no goroutine
  that lost its race.
\<close>

fun recvs :: "event list \<Rightarrow> nat list" where
  "recvs [] = []"
| "recvs (Recv k # es) = k # recvs es"
| "recvs (CtxDone # es) = recvs es"

definition valid_run :: "bool \<Rightarrow> OCRRequest list \<Rightarrow> (race \<times> draws) list \<Rightarrow> event list \<Rightarrow> bool" where
  "valid_run cancelled items rds sched \<longleftrightarrow>
     length rds = length items \<and> length sched = length items \<and>
     list_all (\<lambda>k. k < length items) (recvs sched) \<and> distinct (recvs sched) \<and>
     (\<not> cancelled \<longrightarrow> CtxDone \<notin> set sched \<and> list_all (\<lambda>rd. fst rd = DelayElapsed) rds)"

section \<open>The single-request orchestrator: POST /ocr\<close>

text \<open>
  The three cases of the handler's \<open>select\<close>. The goroutine sends on \<open>errorChan\<close> when
  \<open>processOCR\<close> returned an error and on \<open>resultChan\<close> otherwise; \<open>ctx.Done()\<close> is ready
  once the request's context is cancelled.
\<close>

datatype select_case = FromResultChan | FromErrorChan | FromCtxDone

fun case_ready :: "APIResponse \<times> go_error option \<Rightarrow> bool \<Rightarrow> select_case \<Rightarrow> bool" where
  "case_ready po cancelled FromResultChan = (snd po = None)"
| "case_ready po cancelled FromErrorChan = (snd po \<noteq> None)"
| "case_ready po cancelled FromCtxDone = cancelled"

text \<open>The HTTP status written and the response encoded, for the case the \<open>select\<close> takes.\<close>

fun ocr_select :: "OCRRequest \<Rightarrow> APIResponse \<times> go_error option \<Rightarrow> select_case \<Rightarrow> int \<times> APIResponse" where
  "ocr_select inp po FromResultChan = (200, fst po)"
| "ocr_select inp po FromErrorChan =
     (408, \<lparr>Key = req_Key inp, StatusCode = 408, Body = [], Err = ''Timeout durante procesamiento''\<rparr>)"
| "ocr_select inp po FromCtxDone =
     (499, \<lparr>Key = req_Key inp, StatusCode = 499, Body = [],
            Err = ''Cliente cancel'' @ o_acute @ '' la request''\<rparr>)"

text \<open>
  The whole handler: the decoded body (\<open>None\<close> when decoding failed), the validation of
  the two fields, then the goroutine and the \<open>select\<close>.
\<close>

definition ocr_handler :: "OCRRequest option \<Rightarrow> go_error \<Rightarrow> race \<Rightarrow> draws \<Rightarrow> select_case \<Rightarrow> int \<times> APIResponse" where
  "ocr_handler decoded ctx_err won d chosen =
     (case decoded of
        None \<Rightarrow> (400, \<lparr>Key = [], StatusCode = 400, Body = [],
                       Err = ''JSON inv'' @ a_acute @ ''lido. Se espera {key,url}''\<rparr>)
      | Some inp \<Rightarrow>
          if req_Key inp = [] \<or> req_URL inp = []
          then (400, \<lparr>Key = [], StatusCode = 400, Body = [],
                      Err = ''JSON inv'' @ a_acute @ ''lido. Se espera {key,url}''\<rparr>)
          else ocr_select inp (processOCR ctx_err won d (req_Key inp) (req_URL inp)) chosen)"

section \<open>Well-formed responses\<close>

text \<open>
  The coherence of a response: text and error are not both present, a 200 carries no
  error, and a 408, 499 or 500 carries no text.
\<close>

definition coherent :: "APIResponse \<Rightarrow> bool" where
  "coherent r \<longleftrightarrow>
     \<not> (Body r \<noteq> [] \<and> Err r \<noteq> []) \<and>
     (StatusCode r = 200 \<longrightarrow> Err r = []) \<and>
     (StatusCode r \<in> {408, 499, 500} \<longrightarrow> Body r = [])"

section \<open>Concrete requests and draws\<close>

text \<open>Inputs on which the theorems below are instantiated.\<close>

definition item :: "string \<Rightarrow> OCRRequest" where
  "item k = \<lparr>req_Key = k, req_URL = ''http://x/'' @ k\<rparr>"

definition draw0 :: draws where
  "draw0 = \<lparr>d_delay = 1200, d_text = 2, d_float = 9 / 10, d_word = 0, d_num = 0\<rparr>"

section \<open>Properties of the loops\<close>


lemma length_backfill: "length (backfill items j results) = length results"
  by (induction items j results rule: backfill.induct) (subst backfill.simps, simp)

lemma backfill_nonempty_key:
  "Key (results ! k) \<noteq> [] \<Longrightarrow> backfill items j results ! k = results ! k"
proof (induction items j results rule: backfill.induct)
  case (1 items j results)
  show ?case
  proof (cases "j < length items")
    case False
    then show ?thesis by (subst backfill.simps) simp
  next
    case True
    let ?r = "if Key (results ! j) = []
              then results[j := \<lparr>Key = req_Key (items ! j), StatusCode = 408, Body = [],
                                 Err = ''Batch processing cancelled or timed out''\<rparr>]
              else results"
    have same: "?r ! k = results ! k"
      using "1.prems" by (cases "j = k") auto
    have "backfill items j results ! k = backfill items (Suc j) ?r ! k"
      using True by (subst backfill.simps) simp
    also have "\<dots> = ?r ! k"
      using "1.IH" [OF True] same "1.prems" by simp
    finally show ?thesis using same by simp
  qed
qed

lemma length_launch: "length (launch e i items rds) = min (length items) (length rds)"
  by (induction e i items rds rule: launch.induct) auto

lemma launch_nth:
  "k < length items \<Longrightarrow> k < length rds \<Longrightarrow>
   launch e i items rds ! k = worker e (i + k) (items ! k) (rds ! k)"
proof (induction e i items rds arbitrary: k rule: launch.induct)
  case (1 e i item items rd rds)
  then show ?case by (cases k) auto
qed auto

lemma collect_length:
  "collect items msgs i sched results = Some rs \<Longrightarrow> length rs = length results"
proof (induction sched arbitrary: i results)
  case Nil
  then show ?case by (simp split: if_splits)
next
  case (Cons e es)
  then show ?case
    by (cases e) (auto split: if_splits simp: length_backfill)
qed

lemma collect_returns:
  "length items \<le> i + length sched \<Longrightarrow> \<exists>rs. collect items msgs i sched results = Some rs"
proof (induction sched arbitrary: i results)
  case Nil
  then show ?case by simp
next
  case (Cons e es)
  then show ?case by (cases e) auto
qed


lemma coherent_zero: "coherent zero_APIResponse"
  by (simp add: coherent_def zero_APIResponse_def)

lemma coherent_processOCR: "coherent (fst (processOCR e won d key url))"
  by (cases won) (simp_all add: processOCR_def coherent_def)

lemma coherent_worker: "coherent (snd (worker e i req rd))"
  by (cases "fst rd") (simp_all add: worker_def processOCR_def coherent_def)

lemma coherent_ocr_select:
  "coherent (fst po) \<Longrightarrow> coherent (snd (ocr_select inp po chosen))"
  by (cases chosen) (simp_all add: coherent_def)

lemma coherent_ocr_handler: "coherent (snd (ocr_handler decoded e won d chosen))"
  by (cases decoded)
     (auto simp: ocr_handler_def coherent_ocr_select coherent_processOCR, simp_all add: coherent_def)

lemma list_all_update:
  "list_all P xs \<Longrightarrow> P x \<Longrightarrow> list_all P (xs[i := x])"
  by (metis insert_iff list_all_iff set_update_subset_insert subsetD)

lemma coherent_timeout:
  "coherent \<lparr>Key = k, StatusCode = 408, Body = [],
             Err = ''Batch processing cancelled or timed out''\<rparr>"
  by (simp add: coherent_def)

lemma coherent_backfill:
  "list_all coherent results \<Longrightarrow> list_all coherent (backfill items j results)"
proof (induction items j results rule: backfill.induct)
  case (1 items j results)
  show ?case
  proof (cases "j < length items")
    case False
    then show ?thesis using "1.prems" by (subst backfill.simps) simp
  next
    case True
    have "list_all coherent
            (if Key (results ! j) = []
             then results[j := \<lparr>Key = req_Key (items ! j), StatusCode = 408, Body = [],
                                Err = ''Batch processing cancelled or timed out''\<rparr>]
             else results)"
      using "1.prems" coherent_timeout [of "req_Key (items ! j)"] by (simp add: list_all_update)
    then show ?thesis
      using True "1.IH" by (subst backfill.simps) simp
  qed
qed

lemma coherent_launch: "list_all coherent (map snd (launch e i items rds))"
  by (induction e i items rds rule: launch.induct) (simp_all add: coherent_worker)

lemma coherent_collect:
  "list_all coherent results \<Longrightarrow> list_all coherent (map snd msgs) \<Longrightarrow>
   list_all (\<lambda>k. k < length msgs) (recvs sched) \<Longrightarrow>
   collect items msgs i sched results = Some rs \<Longrightarrow> list_all coherent rs"
proof (induction sched arbitrary: i results)
  case Nil
  then show ?case by (simp split: if_splits)
next
  case (Cons ev es)
  show ?case
  proof (cases "i < length items")
    case False
    with Cons.prems show ?thesis by simp
  next
    case True
    show ?thesis
    proof (cases ev)
      case (Recv k)
      with Cons.prems have k: "k < length msgs" and rest: "list_all (\<lambda>k. k < length msgs) (recvs es)"
        by simp_all
      from k Cons.prems(2) have "coherent (snd (msgs ! k))"
        by (simp add: list_all_length)
      then have "list_all coherent (results[fst (msgs ! k) := snd (msgs ! k)])"
        using Cons.prems(1) by (rule list_all_update [rotated])
      moreover have "collect items msgs (Suc i) es (results[fst (msgs ! k) := snd (msgs ! k)]) = Some rs"
        using Cons.prems(4) True Recv by simp
      ultimately show ?thesis
        using Cons.IH Cons.prems(2) rest by blast
    next
      case CtxDone
      have "list_all coherent (backfill items i results)"
        using Cons.prems(1) by (rule coherent_backfill)
      moreover have "collect items msgs (Suc i) es (backfill items i results) = Some rs"
        using Cons.prems(4) True CtxDone by simp
      moreover have "list_all (\<lambda>k. k < length msgs) (recvs es)"
        using Cons.prems(3) CtxDone by simp
      ultimately show ?thesis
        using Cons.IH Cons.prems(2) by blast
    qed
  qed
qed


section \<open>The item processor\<close>

text \<open>
  Claim C10. Every call of \<open>processOCR\<close> returns a response; it returns an error exactly
  when \<open>ctx.Done()\<close> wins the race against the simulated delay, and then the response is
  the caller's key, status 408, an empty text and the fixed cancellation message; when no
  error is returned the response carries the caller's key and status 200.
\<close>

theorem processOCR_outcome:
  "(snd (processOCR e won d key url) \<noteq> None \<longleftrightarrow> won = CtxDoneFirst) \<and>
   (won = CtxDoneFirst \<longrightarrow>
      processOCR e won d key url =
        (\<lparr>Key = key, StatusCode = 408, Body = [],
          Err = ''Procesamiento cancelado por timeout''\<rparr>, Some e)) \<and>
   (snd (processOCR e won d key url) = None \<longrightarrow>
      Key (fst (processOCR e won d key url)) = key \<and>
      StatusCode (fst (processOCR e won d key url)) = 200)"
  by (cases won) (simp_all add: processOCR_def)

theorem processOCR_outcome_witness:
  "processOCR DeadlineExceeded CtxDoneFirst
     \<lparr>d_delay = 2500, d_text = 0, d_float = 1 / 2, d_word = 0, d_num = 0\<rparr> ''k1'' ''http://x'' =
     (\<lparr>Key = ''k1'', StatusCode = 408, Body = [],
       Err = ''Procesamiento cancelado por timeout''\<rparr>, Some DeadlineExceeded) \<and>
   snd (processOCR DeadlineExceeded DelayElapsed
     \<lparr>d_delay = 2500, d_text = 0, d_float = 1 / 2, d_word = 0, d_num = 0\<rparr> ''k1'' ''http://x'') = None \<and>
   StatusCode (fst (processOCR DeadlineExceeded DelayElapsed
     \<lparr>d_delay = 2500, d_text = 0, d_float = 1 / 2, d_word = 0, d_num = 0\<rparr> ''k1'' ''http://x'')) = 200"
  using processOCR_outcome [of DeadlineExceeded CtxDoneFirst
          "\<lparr>d_delay = 2500, d_text = 0, d_float = 1 / 2, d_word = 0, d_num = 0\<rparr>" "''k1''" "''http://x''"]
        processOCR_outcome [of DeadlineExceeded DelayElapsed
          "\<lparr>d_delay = 2500, d_text = 0, d_float = 1 / 2, d_word = 0, d_num = 0\<rparr>" "''k1''" "''http://x''"]
  by simp

section \<open>The batch orchestrator\<close>

text \<open>
  Claim C6. For every batch and every schedule the runtime can produce, with or without
  cancellation, \<open>processBatchOCR\<close> returns, and its results have exactly as many entries
  as there are items.
\<close>

theorem processBatchOCR_length:
  assumes "valid_run cancelled items rds sched"
  shows "\<exists>rs. processBatchOCR e items rds sched = Some rs \<and> length rs = length items"
proof -
  from assms have "length items \<le> 0 + length sched"
    by (simp add: valid_run_def)
  then obtain rs where rs:
    "collect items (launch e 0 items rds) 0 sched (replicate (length items) zero_APIResponse) = Some rs"
    using collect_returns by blast
  then have "length rs = length items"
    by (simp add: collect_length)
  with rs show ?thesis
    by (simp add: processBatchOCR_def)
qed

theorem processBatchOCR_length_witness:
  "valid_run True [item ''a'', item ''b'', item ''c'']
     [(DelayElapsed, draw0), (CtxDoneFirst, draw0), (CtxDoneFirst, draw0)] [Recv 0, CtxDone, Recv 2] \<and>
   (\<exists>rs. processBatchOCR Canceled [item ''a'', item ''b'', item ''c'']
     [(DelayElapsed, draw0), (CtxDoneFirst, draw0), (CtxDoneFirst, draw0)] [Recv 0, CtxDone, Recv 2] = Some rs \<and>
     length rs = 3)"
proof -
  have v: "valid_run True [item ''a'', item ''b'', item ''c'']
     [(DelayElapsed, draw0), (CtxDoneFirst, draw0), (CtxDoneFirst, draw0)] [Recv 0, CtxDone, Recv 2]"
    by (simp add: valid_run_def)
  show ?thesis
    using v processBatchOCR_length [OF v, of Canceled] by (simp add: numeral_3_eq_3)
qed


section \<open>Coherence of every response\<close>

text \<open>
  Claim C5. Every response the service produces is coherent: the one \<open>processOCR\<close>
  returns, the one a batch goroutine sends, the one the \<open>POST /ocr\<close> handler encodes for
  any case its \<open>select\<close> takes, and every entry of the results of \<open>processBatchOCR\<close>
  under every schedule. A coherent response does not have both a text and an error, has no
  error when its status is 200, and has no text when its status is 408, 499 or 500. A slot
  the batch never wrote keeps the zero value, with status 0 and neither text nor error.
\<close>

theorem results_coherent:
  "coherent (fst (processOCR e won d key url)) \<and>
   coherent (snd (worker e i req rd)) \<and>
   coherent (snd (ocr_handler decoded e won d chosen)) \<and>
   (valid_run cancelled items rds sched \<longrightarrow>
      (\<exists>rs. processBatchOCR e items rds sched = Some rs \<and> list_all coherent rs))"
proof -
  have batch: "\<exists>rs. processBatchOCR e items rds sched = Some rs \<and> list_all coherent rs"
    if v: "valid_run cancelled items rds sched"
  proof -
    let ?msgs = "launch e 0 items rds"
    let ?init = "replicate (length items) zero_APIResponse"
    from v have len: "length ?msgs = length items"
      by (simp add: valid_run_def length_launch)
    from v have "length items \<le> 0 + length sched"
      by (simp add: valid_run_def)
    then obtain rs where rs: "collect items ?msgs 0 sched ?init = Some rs"
      using collect_returns by blast
    have init: "list_all coherent ?init"
      by (simp add: list_all_length coherent_zero)
    have inrange: "list_all (\<lambda>k. k < length ?msgs) (recvs sched)"
      using v len by (simp add: valid_run_def)
    have "list_all coherent rs"
      by (rule coherent_collect [OF init coherent_launch inrange rs])
    with rs show ?thesis
      by (auto simp: processBatchOCR_def)
  qed
  show ?thesis
    using batch by (simp add: coherent_processOCR coherent_worker coherent_ocr_handler)
qed

theorem results_coherent_witness:
  "valid_run True [item ''a'', item ''b'']
     [(CtxDoneFirst, draw0), (DelayElapsed, draw0)] [Recv 1, CtxDone] \<and>
   processBatchOCR Canceled [item ''a'', item ''b'']
     [(CtxDoneFirst, draw0), (DelayElapsed, draw0)] [Recv 1, CtxDone] =
     Some [zero_APIResponse,
           \<lparr>Key = ''b'', StatusCode = 200, Body = ''Licencia de conducir'', Err = []\<rparr>] \<and>
   list_all coherent [zero_APIResponse,
           \<lparr>Key = ''b'', StatusCode = 200, Body = ''Licencia de conducir'', Err = []\<rparr>]"
proof -
  have v: "valid_run True [item ''a'', item ''b'']
     [(CtxDoneFirst, draw0), (DelayElapsed, draw0)] [Recv 1, CtxDone]"
    by (simp add: valid_run_def)
  have run: "processBatchOCR Canceled [item ''a'', item ''b'']
     [(CtxDoneFirst, draw0), (DelayElapsed, draw0)] [Recv 1, CtxDone] =
     Some [zero_APIResponse,
           \<lparr>Key = ''b'', StatusCode = 200, Body = ''Licencia de conducir'', Err = []\<rparr>]"
    by (simp add: processBatchOCR_def item_def draw0_def worker_def processOCR_def
          synth_text_def float32_0_7_def randomTexts_def backfill.simps zero_APIResponse_def)
  show ?thesis
    using v run
      results_coherent [of Canceled DelayElapsed draw0 "''a''" "''u''" 0 "item ''a''"
        "(DelayElapsed, draw0)" None FromCtxDone True "[item ''a'', item ''b'']"
        "[(CtxDoneFirst, draw0), (DelayElapsed, draw0)]" "[Recv 1, CtxDone]"]
    by simp
qed


section \<open>The single-request orchestrator\<close>

text \<open>
  Claim C7. For every request that passes validation the handler of \<open>POST /ocr\<close> always
  has a case of its \<open>select\<close> ready, so it answers and never raises, and what it answers
  is fixed by the case taken: the response of \<open>processOCR\<close> as it is, with status 200,
  from the result channel; status 408, an empty text and the timeout message from the
  error channel; status 499, an empty text and the client-cancelled message when
  \<open>ctx.Done()\<close> is observed.
\<close>

theorem ocr_handler_terminal:
  assumes "req_Key inp \<noteq> []" and "req_URL inp \<noteq> []"
  shows
    "(\<exists>c. case_ready (processOCR e won d (req_Key inp) (req_URL inp)) cancelled c) \<and>
     (case_ready (processOCR e won d (req_Key inp) (req_URL inp)) cancelled FromResultChan \<longrightarrow>
        ocr_handler (Some inp) e won d FromResultChan =
          (200, fst (processOCR e won d (req_Key inp) (req_URL inp))) \<and>
        StatusCode (fst (processOCR e won d (req_Key inp) (req_URL inp))) = 200 \<and>
        Key (fst (processOCR e won d (req_Key inp) (req_URL inp))) = req_Key inp) \<and>
     (case_ready (processOCR e won d (req_Key inp) (req_URL inp)) cancelled FromErrorChan \<longrightarrow>
        ocr_handler (Some inp) e won d FromErrorChan =
          (408, \<lparr>Key = req_Key inp, StatusCode = 408, Body = [],
                 Err = ''Timeout durante procesamiento''\<rparr>)) \<and>
     (case_ready (processOCR e won d (req_Key inp) (req_URL inp)) cancelled FromCtxDone \<longrightarrow>
        ocr_handler (Some inp) e won d FromCtxDone =
          (499, \<lparr>Key = req_Key inp, StatusCode = 499, Body = [],
                 Err = ''Cliente cancel'' @ o_acute @ '' la request''\<rparr>))"
proof -
  have ready: "\<exists>c. case_ready (processOCR e won d (req_Key inp) (req_URL inp)) cancelled c"
  proof (cases won)
    case DelayElapsed
    then have "case_ready (processOCR e won d (req_Key inp) (req_URL inp)) cancelled FromResultChan"
      by (simp add: processOCR_def)
    then show ?thesis ..
  next
    case CtxDoneFirst
    then have "case_ready (processOCR e won d (req_Key inp) (req_URL inp)) cancelled FromErrorChan"
      by (simp add: processOCR_def)
    then show ?thesis ..
  qed
  have ok: "ocr_handler (Some inp) e won d c =
            ocr_select inp (processOCR e won d (req_Key inp) (req_URL inp)) c" for c
    using assms by (simp add: ocr_handler_def)
  have res: "snd (processOCR e won d (req_Key inp) (req_URL inp)) = None \<Longrightarrow>
        StatusCode (fst (processOCR e won d (req_Key inp) (req_URL inp))) = 200 \<and>
        Key (fst (processOCR e won d (req_Key inp) (req_URL inp))) = req_Key inp"
    by (cases won) (simp_all add: processOCR_def)
  show ?thesis
    using ready res by (simp add: ok)
qed

theorem ocr_handler_terminal_witness:
  "ocr_handler (Some (item ''k1'')) Canceled DelayElapsed draw0 FromResultChan =
     (200, \<lparr>Key = ''k1'', StatusCode = 200, Body = ''Licencia de conducir'', Err = []\<rparr>) \<and>
   ocr_handler (Some (item ''k1'')) Canceled CtxDoneFirst draw0 FromErrorChan =
     (408, \<lparr>Key = ''k1'', StatusCode = 408, Body = [], Err = ''Timeout durante procesamiento''\<rparr>) \<and>
   ocr_handler (Some (item ''k1'')) Canceled CtxDoneFirst draw0 FromCtxDone =
     (499, \<lparr>Key = ''k1'', StatusCode = 499, Body = [],
            Err = ''Cliente cancel'' @ o_acute @ '' la request''\<rparr>)"
proof -
  have k: "req_Key (item ''k1'') \<noteq> []" and u: "req_URL (item ''k1'') \<noteq> []"
    by (simp_all add: item_def)
  show ?thesis
    using ocr_handler_terminal [OF k u, of Canceled DelayElapsed draw0 False]
          ocr_handler_terminal [OF k u, of Canceled CtxDoneFirst draw0 True]
    by (simp add: processOCR_def item_def draw0_def synth_text_def float32_0_7_def randomTexts_def)
qed


section \<open>Cancellation in the collecting loop\<close>

text \<open>
  The schedules used below are schedules of a cancelled batch: one event per iteration,
  each message received at most once and sent by a goroutine of the batch.
\<close>

lemma cancelled_schedules_valid:
  "valid_run True [item ''a'', item ''b'', item ''c'']
     [(CtxDoneFirst, draw0), (CtxDoneFirst, draw0), (DelayElapsed, draw0)]
     [Recv 2, CtxDone, CtxDone]"
  "valid_run True [item ''a'', item ''b'', item ''c'']
     [(CtxDoneFirst, draw0), (CtxDoneFirst, draw0), (CtxDoneFirst, draw0)]
     [CtxDone, Recv 0, CtxDone]"
  "valid_run True [item ''a'', item ''b'', item ''c'', item ''d'', item ''e'']
     [(CtxDoneFirst, draw0), (CtxDoneFirst, draw0), (CtxDoneFirst, draw0),
      (DelayElapsed, draw0), (DelayElapsed, draw0)]
     [Recv 3, Recv 4, CtxDone, Recv 0, CtxDone]"
  by (simp_all add: valid_run_def)

text \<open>
  Claim C1 fails on the code. The backfill of iteration \<open>i\<close> starts at slot \<open>i\<close>, so a slot
  below \<open>i\<close> that is still unset when the cancellation is observed is never filled: with
  three items, the third completes first and is received in iteration 0, and the
  cancellation is observed in iterations 1 and 2. Slot 0 keeps the zero value, whose key
  is empty and not the key \<open>a\<close> of item 0.
\<close>

theorem processBatchOCR_unset_slot_below_drain_count:
  "processBatchOCR Canceled [item ''a'', item ''b'', item ''c'']
     [(CtxDoneFirst, draw0), (CtxDoneFirst, draw0), (DelayElapsed, draw0)]
     [Recv 2, CtxDone, CtxDone] =
     Some [\<lparr>Key = [], StatusCode = 0, Body = [], Err = []\<rparr>,
           \<lparr>Key = ''b'', StatusCode = 408, Body = [],
             Err = ''Batch processing cancelled or timed out''\<rparr>,
           \<lparr>Key = ''c'', StatusCode = 200, Body = ''Licencia de conducir'', Err = []\<rparr>] \<and>
   Key \<lparr>Key = [], StatusCode = 0, Body = [], Err = []\<rparr> \<noteq>
     req_Key ([item ''a'', item ''b'', item ''c''] ! 0)"
  by (simp add: processBatchOCR_def item_def draw0_def worker_def processOCR_def
        synth_text_def float32_0_7_def randomTexts_def backfill.simps zero_APIResponse_def)

text \<open>
  Claim C2 fails on the code. The \<open>break\<close> of the cancellation branch leaves the \<open>select\<close>,
  not the loop: after the backfill of iteration 0 has set every slot to the 408
  placeholder, iteration 1 still receives the message of goroutine 0 and writes it over
  the placeholder, and iteration 2 observes the cancellation again.
\<close>

theorem processBatchOCR_drains_after_cancellation:
  "backfill [item ''a'', item ''b'', item ''c''] 0 (replicate 3 zero_APIResponse) =
     [\<lparr>Key = ''a'', StatusCode = 408, Body = [],
        Err = ''Batch processing cancelled or timed out''\<rparr>,
      \<lparr>Key = ''b'', StatusCode = 408, Body = [],
        Err = ''Batch processing cancelled or timed out''\<rparr>,
      \<lparr>Key = ''c'', StatusCode = 408, Body = [],
        Err = ''Batch processing cancelled or timed out''\<rparr>] \<and>
   processBatchOCR Canceled [item ''a'', item ''b'', item ''c'']
     [(CtxDoneFirst, draw0), (CtxDoneFirst, draw0), (CtxDoneFirst, draw0)]
     [CtxDone, Recv 0, CtxDone] =
     Some [\<lparr>Key = ''a'', StatusCode = 500, Body = [], Err = ''context canceled''\<rparr>,
           \<lparr>Key = ''b'', StatusCode = 408, Body = [],
             Err = ''Batch processing cancelled or timed out''\<rparr>,
           \<lparr>Key = ''c'', StatusCode = 408, Body = [],
             Err = ''Batch processing cancelled or timed out''\<rparr>]"
  by (simp add: processBatchOCR_def item_def draw0_def worker_def processOCR_def
        backfill.simps zero_APIResponse_def numeral_3_eq_3)

text \<open>
  Claim C3 fails on the code. With five items of which the last two complete before the
  deadline, the cancellation is observed in iteration 2, the message of goroutine 0 (a 500
  with the text of the context error) is received in iteration 3 and the cancellation is
  observed again in iteration 4. Of the three items that did not complete, only item 2
  gets the 408 placeholder: item 0 gets the 500 and item 1 keeps the zero value.
\<close>

theorem processBatchOCR_deadline_after_two:
  "processBatchOCR DeadlineExceeded [item ''a'', item ''b'', item ''c'', item ''d'', item ''e'']
     [(CtxDoneFirst, draw0), (CtxDoneFirst, draw0), (CtxDoneFirst, draw0),
      (DelayElapsed, draw0), (DelayElapsed, draw0)]
     [Recv 3, Recv 4, CtxDone, Recv 0, CtxDone] =
     Some [\<lparr>Key = ''a'', StatusCode = 500, Body = [], Err = ''context deadline exceeded''\<rparr>,
           \<lparr>Key = [], StatusCode = 0, Body = [], Err = []\<rparr>,
           \<lparr>Key = ''c'', StatusCode = 408, Body = [],
             Err = ''Batch processing cancelled or timed out''\<rparr>,
           \<lparr>Key = ''d'', StatusCode = 200, Body = ''Licencia de conducir'', Err = []\<rparr>,
           \<lparr>Key = ''e'', StatusCode = 200, Body = ''Licencia de conducir'', Err = []\<rparr>]"
  by (simp add: processBatchOCR_def item_def draw0_def worker_def processOCR_def
        synth_text_def float32_0_7_def randomTexts_def backfill.simps zero_APIResponse_def)


section \<open>The synthesized text\<close>

text \<open>
  What \<open>processOCR\<close> synthesizes when the delay elapses first: one of the ten phrases,
  extended, when the float drawn is below 0.7, by one of the seven words and the decimal
  digits of \<open>rand.Intn(9999) + 1000\<close>, a number from 1000 to 10998.
\<close>

lemma synth_text_shape:
  assumes "valid_draws d"
  shows "Body (fst (processOCR e DelayElapsed d key url)) \<in> set randomTexts \<or>
         (\<exists>t \<in> set randomTexts. \<exists>w \<in> set additionalWords. \<exists>n. 1000 \<le> n \<and> n \<le> 10998 \<and>
            Body (fst (processOCR e DelayElapsed d key url)) = t @ '' '' @ w @ '' '' @ sprintf_d n)"
proof (cases "d_float d < float32_0_7")
  case False
  then have "Body (fst (processOCR e DelayElapsed d key url)) = randomTexts ! d_text d"
    by (simp add: processOCR_def synth_text_def)
  moreover have "randomTexts ! d_text d \<in> set randomTexts"
    using assms by (simp add: valid_draws_def)
  ultimately show ?thesis by simp
next
  case True
  then have "Body (fst (processOCR e DelayElapsed d key url)) =
        randomTexts ! d_text d @ '' '' @ additionalWords ! d_word d @ '' '' @ sprintf_d (d_num d + 1000)"
    by (simp add: processOCR_def synth_text_def Let_def)
  moreover have "randomTexts ! d_text d \<in> set randomTexts"
    and "additionalWords ! d_word d \<in> set additionalWords"
    and "1000 \<le> d_num d + 1000" and "d_num d + 1000 \<le> 10998"
    using assms by (simp_all add: valid_draws_def)
  ultimately show ?thesis by blast
qed

text \<open>
  Claim C9 fails on the code. \<open>rand.Intn(9999)\<close> can return 9000, and then the number
  appended is 10000, which has five digits and lies outside 1000 to 9999.
\<close>

theorem processOCR_five_digit_number:
  "valid_draws \<lparr>d_delay = 0, d_text = 0, d_float = 0, d_word = 0, d_num = 9000\<rparr> \<and>
   processOCR Canceled DelayElapsed
     \<lparr>d_delay = 0, d_text = 0, d_float = 0, d_word = 0, d_num = 9000\<rparr> ''k1'' ''http://x'' =
     (\<lparr>Key = ''k1'', StatusCode = 200,
       Body = ''Documento de identificaci'' @ o_acute @ ''n validez 10000'', Err = []\<rparr>, None)"
  by (simp add: valid_draws_def processOCR_def synth_text_def float32_0_7_def randomTexts_def
        additionalWords_def digit_char_def)


subsection \<open>What a backfill pass and a whole run leave in a slot\<close>

lemma backfill_nth:
  "k < length results \<Longrightarrow>
   backfill items j results ! k =
     (if j \<le> k \<and> k < length items \<and> Key (results ! k) = []
      then \<lparr>Key = req_Key (items ! k), StatusCode = 408, Body = [],
             Err = ''Batch processing cancelled or timed out''\<rparr>
      else results ! k)"
proof (induction items j results rule: backfill.induct)
  case (1 items j results)
  show ?case
  proof (cases "j < length items")
    case False
    then have "\<not> (j \<le> k \<and> k < length items)" by auto
    with False show ?thesis by (subst backfill.simps) auto
  next
    case True
    let ?r = "if Key (results ! j) = []
              then results[j := \<lparr>Key = req_Key (items ! j), StatusCode = 408, Body = [],
                                 Err = ''Batch processing cancelled or timed out''\<rparr>]
              else results"
    have len: "k < length ?r"
      using "1.prems" by simp
    have unfold: "backfill items j results ! k = backfill items (Suc j) ?r ! k"
      using True by (subst backfill.simps) simp
    have ih: "backfill items (Suc j) ?r ! k =
        (if Suc j \<le> k \<and> k < length items \<and> Key (?r ! k) = []
         then \<lparr>Key = req_Key (items ! k), StatusCode = 408, Body = [],
                Err = ''Batch processing cancelled or timed out''\<rparr>
         else ?r ! k)"
      using "1.IH" [OF True len] .
    show ?thesis
    proof (cases "k = j")
      case True
      with ih unfold \<open>j < length items\<close> "1.prems" show ?thesis by simp
    next
      case False
      then have "?r ! k = results ! k" by simp
      moreover have "Suc j \<le> k \<longleftrightarrow> j \<le> k" using False by auto
      ultimately show ?thesis using ih unfold by simp
    qed
  qed
qed

lemma fst_worker: "fst (worker e i req rd) = i"
  by (cases "fst rd") (simp_all add: worker_def processOCR_def)

lemma Key_worker: "Key (snd (worker e i req rd)) = req_Key req"
  by (cases "fst rd") (simp_all add: worker_def processOCR_def)

lemma collect_received_kept:
  assumes "\<forall>k < length items. fst (msgs ! k) = k \<and> Key (snd (msgs ! k)) \<noteq> []"
    and "length results = length items"
    and "distinct (recvs sched)"
    and "list_all (\<lambda>k. k < length items) (recvs sched)"
    and "i + length sched = length items"
    and "collect items msgs i sched results = Some rs"
  shows "(\<forall>k \<in> set (recvs sched). rs ! k = snd (msgs ! k)) \<and>
         (\<forall>k < length items. k \<notin> set (recvs sched) \<longrightarrow> Key (results ! k) \<noteq> [] \<longrightarrow>
            rs ! k = results ! k)"
  using assms(2-)
proof (induction sched arbitrary: i results)
  case Nil
  then show ?case by (simp split: if_splits)
next
  case (Cons ev es)
  from Cons.prems have i: "i < length items" and rest: "Suc i + length es = length items"
    by simp_all
  show ?case
  proof (cases ev)
    case (Recv k)
    let ?r = "results[fst (msgs ! k) := snd (msgs ! k)]"
    from Cons.prems Recv have k: "k < length items" and knot: "k \<notin> set (recvs es)"
      and dist: "distinct (recvs es)" and inr: "list_all (\<lambda>k. k < length items) (recvs es)"
      by simp_all
    from assms(1) k have fk: "fst (msgs ! k) = k" and kk: "Key (snd (msgs ! k)) \<noteq> []"
      by simp_all
    have run: "collect items msgs (Suc i) es ?r = Some rs"
      using Cons.prems(5) i Recv by simp
    have len: "length ?r = length items"
      using Cons.prems(1) by simp
    note ih = Cons.IH [OF len dist inr rest run]
    have here: "rs ! k = snd (msgs ! k)"
    proof -
      have "Key (?r ! k) \<noteq> []"
        using fk kk k Cons.prems(1) by simp
      with ih k knot have "rs ! k = ?r ! k" by blast
      then show ?thesis using fk k Cons.prems(1) by simp
    qed
    have other: "rs ! n = results ! n"
      if "n < length items" "n \<notin> set (recvs (ev # es))" "Key (results ! n) \<noteq> []" for n
    proof -
      from that Recv have ne: "n \<noteq> k" and nn: "n \<notin> set (recvs es)" by auto
      then have same: "?r ! n = results ! n" using fk by simp
      with that ih nn have "rs ! n = ?r ! n" by simp
      with same show ?thesis by simp
    qed
    show ?thesis
      using here ih other Recv by auto
  next
    case CtxDone
    let ?r = "backfill items i results"
    from Cons.prems CtxDone have dist: "distinct (recvs es)"
      and inr: "list_all (\<lambda>k. k < length items) (recvs es)"
      by simp_all
    have run: "collect items msgs (Suc i) es ?r = Some rs"
      using Cons.prems(5) i CtxDone by simp
    have len: "length ?r = length items"
      using Cons.prems(1) by (simp add: length_backfill)
    note ih = Cons.IH [OF len dist inr rest run]
    have other: "rs ! n = results ! n"
      if "n < length items" "n \<notin> set (recvs (ev # es))" "Key (results ! n) \<noteq> []" for n
    proof -
      from that CtxDone have nn: "n \<notin> set (recvs es)" by simp
      have same: "?r ! n = results ! n"
        using that(3) by (rule backfill_nonempty_key)
      with that ih nn have "rs ! n = ?r ! n" by simp
      with same show ?thesis by simp
    qed
    show ?thesis
      using ih other CtxDone by auto
  qed
qed


lemma collect_agree_off:
  assumes "length r1 = length r2"
    and "\<forall>k < length r1. k \<noteq> i \<longrightarrow> r1 ! k = r2 ! k"
    and "\<forall>k \<in> set (recvs sched). fst (m1 ! k) = k \<and> fst (m2 ! k) = k \<and> (k \<noteq> i \<longrightarrow> m1 ! k = m2 ! k)"
    and "collect items m1 n sched r1 = Some rs1"
    and "collect items m2 n sched r2 = Some rs2"
  shows "length rs1 = length rs2 \<and> (\<forall>k < length rs1. k \<noteq> i \<longrightarrow> rs1 ! k = rs2 ! k)"
  using assms
proof (induction sched arbitrary: n r1 r2)
  case Nil
  then show ?case by (simp split: if_splits)
next
  case (Cons ev es)
  show ?case
  proof (cases "n < length items")
    case False
    with Cons.prems show ?thesis by simp
  next
    case True
    show ?thesis
    proof (cases ev)
      case (Recv k)
      let ?a = "r1[fst (m1 ! k) := snd (m1 ! k)]" and ?b = "r2[fst (m2 ! k) := snd (m2 ! k)]"
      from Cons.prems(3) Recv have f1: "fst (m1 ! k) = k" and f2: "fst (m2 ! k) = k"
        and same: "k \<noteq> i \<Longrightarrow> m1 ! k = m2 ! k"
        and rest: "\<forall>k \<in> set (recvs es). fst (m1 ! k) = k \<and> fst (m2 ! k) = k \<and> (k \<noteq> i \<longrightarrow> m1 ! k = m2 ! k)"
        by simp_all
      have len: "length ?a = length ?b"
        using Cons.prems(1) by simp
      have agree: "\<forall>q < length ?a. q \<noteq> i \<longrightarrow> ?a ! q = ?b ! q"
      proof (intro allI impI)
        fix q assume q: "q < length ?a" "q \<noteq> i"
        show "?a ! q = ?b ! q"
        proof (cases "q = k")
          case True
          with q same have "m1 ! k = m2 ! k" by simp
          with True q f1 f2 Cons.prems(1) show ?thesis by simp
        next
          case False
          with q f1 f2 Cons.prems(1,2) show ?thesis by simp
        qed
      qed
      have "collect items m1 (Suc n) es ?a = Some rs1" and "collect items m2 (Suc n) es ?b = Some rs2"
        using Cons.prems(4,5) True Recv by simp_all
      with Cons.IH [OF len agree rest] show ?thesis by blast
    next
      case CtxDone
      let ?a = "backfill items n r1" and ?b = "backfill items n r2"
      have len: "length ?a = length ?b"
        using Cons.prems(1) by (simp add: length_backfill)
      have agree: "\<forall>q < length ?a. q \<noteq> i \<longrightarrow> ?a ! q = ?b ! q"
      proof (intro allI impI)
        fix q assume q: "q < length ?a" "q \<noteq> i"
        then have q1: "q < length r1" and q2: "q < length r2"
          using Cons.prems(1) by (simp_all add: length_backfill)
        with q Cons.prems(2) have "r1 ! q = r2 ! q" by simp
        then show "?a ! q = ?b ! q"
          by (simp add: backfill_nth [OF q1] backfill_nth [OF q2])
      qed
      from Cons.prems(3) CtxDone
      have rest: "\<forall>k \<in> set (recvs es). fst (m1 ! k) = k \<and> fst (m2 ! k) = k \<and> (k \<noteq> i \<longrightarrow> m1 ! k = m2 ! k)"
        by simp
      have "collect items m1 (Suc n) es ?a = Some rs1" and "collect items m2 (Suc n) es ?b = Some rs2"
        using Cons.prems(4,5) True CtxDone by simp_all
      with Cons.IH [OF len agree rest] show ?thesis by blast
    qed
  qed
qed

text \<open>
  The slot of every item whose message is received holds, when the batch returns, the
  response its goroutine sent, provided the keys are not empty.
\<close>

lemma received_slots:
  assumes v: "valid_run cancelled items rds sched"
    and keys: "\<forall>it \<in> set items. req_Key it \<noteq> []"
  shows "\<exists>rs. processBatchOCR e items rds sched = Some rs \<and> length rs = length items \<and>
           (\<forall>k \<in> set (recvs sched). rs ! k = snd (worker e k (items ! k) (rds ! k)))"
proof -
  let ?msgs = "launch e 0 items rds"
  let ?init = "replicate (length items) zero_APIResponse"
  from v have lr: "length rds = length items" and ls: "0 + length sched = length items"
    and dist: "distinct (recvs sched)" and inr: "list_all (\<lambda>k. k < length items) (recvs sched)"
    by (simp_all add: valid_run_def)
  have nth: "?msgs ! k = worker e k (items ! k) (rds ! k)" if "k < length items" for k
    using launch_nth [of k items rds e 0] that lr by simp
  have msgs: "\<forall>k < length items. fst (?msgs ! k) = k \<and> Key (snd (?msgs ! k)) \<noteq> []"
    using keys by (simp add: nth fst_worker Key_worker)
  from ls obtain rs where rs: "collect items ?msgs 0 sched ?init = Some rs"
    using collect_returns [of items 0 sched ?msgs ?init] by auto
  have len: "length rs = length items"
    using collect_length [OF rs] by simp
  have "\<forall>k \<in> set (recvs sched). rs ! k = snd (?msgs ! k)"
    using collect_received_kept [OF msgs _ dist inr ls rs] by simp
  moreover have "\<forall>k \<in> set (recvs sched). k < length items"
    using inr by (simp add: list_all_iff)
  ultimately have "\<forall>k \<in> set (recvs sched). rs ! k = snd (worker e k (items ! k) (rds ! k))"
    by (simp add: nth)
  with rs len show ?thesis
    by (simp add: processBatchOCR_def)
qed

text \<open>
  Two runs of a batch on the same schedule that differ only in what happens to item \<open>i\<close>
  return results that agree on every other slot.
\<close>

lemma sibling_slots:
  assumes v: "valid_run cancelled items rds sched"
    and rs1: "processBatchOCR e items rds sched = Some rs1"
    and rs2: "processBatchOCR e items (rds[i := rd']) sched = Some rs2"
  shows "\<forall>k < length items. k \<noteq> i \<longrightarrow> rs2 ! k = rs1 ! k"
proof -
  let ?m1 = "launch e 0 items rds" and ?m2 = "launch e 0 items (rds[i := rd'])"
  let ?init = "replicate (length items) zero_APIResponse"
  from v have lr: "length rds = length items"
    and inr: "list_all (\<lambda>k. k < length items) (recvs sched)"
    by (simp_all add: valid_run_def)
  have n1: "?m1 ! k = worker e k (items ! k) (rds ! k)" if "k < length items" for k
    using launch_nth [of k items rds e 0] that lr by simp
  have n2: "?m2 ! k = worker e k (items ! k) (rds[i := rd'] ! k)" if "k < length items" for k
    using launch_nth [of k items "rds[i := rd']" e 0] that lr by simp
  have m: "\<forall>k \<in> set (recvs sched). fst (?m1 ! k) = k \<and> fst (?m2 ! k) = k \<and> (k \<noteq> i \<longrightarrow> ?m1 ! k = ?m2 ! k)"
  proof
    fix k assume "k \<in> set (recvs sched)"
    with inr have "k < length items" by (simp add: list_all_iff)
    then show "fst (?m1 ! k) = k \<and> fst (?m2 ! k) = k \<and> (k \<noteq> i \<longrightarrow> ?m1 ! k = ?m2 ! k)"
      by (simp add: n1 n2 fst_worker)
  qed
  have c1: "collect items ?m1 0 sched ?init = Some rs1" and c2: "collect items ?m2 0 sched ?init = Some rs2"
    using rs1 rs2 by (simp_all add: processBatchOCR_def)
  have "length rs1 = length rs2 \<and> (\<forall>k < length rs1. k \<noteq> i \<longrightarrow> rs1 ! k = rs2 ! k)"
    by (rule collect_agree_off [OF _ _ m c1 c2]) simp_all
  moreover have "length rs1 = length items"
    using collect_length [OF c1] by simp
  ultimately show ?thesis by simp
qed


section \<open>The backfill pass and filled slots\<close>

text \<open>
  Claim C4. Once a slot holds the result a goroutine sent for an item, no backfill pass,
  from whatever index it starts, overwrites it; and when the batch returns, the slot of
  every item whose result was received still holds that result, whatever cancellations
  were observed after it. The pass tells a filled slot from an unset one by its key, so
  this is for items whose key is not empty, the only ones the batch handler passes to
  \<open>processBatchOCR\<close>.
\<close>

theorem backfill_keeps_filled:
  "(req_Key req \<noteq> [] \<longrightarrow> k < length results \<longrightarrow>
      backfill items j (results[k := snd (worker e k req rd)]) ! k = snd (worker e k req rd)) \<and>
   (valid_run cancelled batch rds sched \<longrightarrow> (\<forall>it \<in> set batch. req_Key it \<noteq> []) \<longrightarrow>
      (\<exists>rs. processBatchOCR e batch rds sched = Some rs \<and> length rs = length batch \<and>
         (\<forall>n \<in> set (recvs sched). rs ! n = snd (worker e n (batch ! n) (rds ! n)))))"
proof (intro conjI impI)
  assume key: "req_Key req \<noteq> []" and k: "k < length results"
  have "Key (results[k := snd (worker e k req rd)] ! k) \<noteq> []"
    using key k by (simp add: Key_worker)
  then have "backfill items j (results[k := snd (worker e k req rd)]) ! k =
             results[k := snd (worker e k req rd)] ! k"
    by (rule backfill_nonempty_key)
  then show "backfill items j (results[k := snd (worker e k req rd)]) ! k = snd (worker e k req rd)"
    using k by simp
next
  assume "valid_run cancelled batch rds sched" and "\<forall>it \<in> set batch. req_Key it \<noteq> []"
  then show "\<exists>rs. processBatchOCR e batch rds sched = Some rs \<and> length rs = length batch \<and>
         (\<forall>n \<in> set (recvs sched). rs ! n = snd (worker e n (batch ! n) (rds ! n)))"
    by (rule received_slots)
qed

theorem backfill_keeps_filled_witness:
  "backfill [item ''a'', item ''b''] 1
     ([zero_APIResponse, zero_APIResponse]
        [1 := snd (worker Canceled 1 (item ''b'') (DelayElapsed, draw0))]) ! 1 =
     \<lparr>Key = ''b'', StatusCode = 200, Body = ''Licencia de conducir'', Err = []\<rparr> \<and>
   valid_run True [item ''a'', item ''b''] [(CtxDoneFirst, draw0), (DelayElapsed, draw0)]
     [Recv 1, CtxDone] \<and>
   (\<exists>rs. processBatchOCR Canceled [item ''a'', item ''b'']
            [(CtxDoneFirst, draw0), (DelayElapsed, draw0)] [Recv 1, CtxDone] = Some rs \<and>
         rs ! 1 = \<lparr>Key = ''b'', StatusCode = 200, Body = ''Licencia de conducir'', Err = []\<rparr>)"
proof -
  have a: "req_Key (item ''b'') \<noteq> []"
    by (simp add: item_def)
  have b: "(1::nat) < length [zero_APIResponse, zero_APIResponse]"
    by simp
  have v: "valid_run True [item ''a'', item ''b''] [(CtxDoneFirst, draw0), (DelayElapsed, draw0)]
     [Recv 1, CtxDone]"
    by (simp add: valid_run_def)
  have keys: "\<forall>it \<in> set [item ''a'', item ''b'']. req_Key it \<noteq> []"
    by (simp add: item_def)
  have w: "snd (worker Canceled 1 (item ''b'') (DelayElapsed, draw0)) =
        \<lparr>Key = ''b'', StatusCode = 200, Body = ''Licencia de conducir'', Err = []\<rparr>"
    by (simp add: worker_def processOCR_def item_def draw0_def synth_text_def float32_0_7_def
          randomTexts_def)
  show ?thesis
    using a b v keys w
      backfill_keeps_filled [of "item ''b''" 1 "[zero_APIResponse, zero_APIResponse]"
        "[item ''a'', item ''b'']" 1 Canceled "(DelayElapsed, draw0)" True
        "[item ''a'', item ''b'']" "[(CtxDoneFirst, draw0), (DelayElapsed, draw0)]"
        "[Recv 1, CtxDone]"]
    by auto
qed

text \<open>
  The condition on the key is needed by the function itself: the result of an item with
  an empty key, received in iteration 0, is replaced by the placeholder when the
  cancellation is observed in iteration 1 and the backfill reaches its slot.
\<close>

lemma backfill_empty_key:
  "processBatchOCR Canceled [item ''a'', item []]
     [(CtxDoneFirst, draw0), (DelayElapsed, draw0)] [Recv 1, CtxDone] =
     Some [zero_APIResponse,
           \<lparr>Key = [], StatusCode = 408, Body = [],
             Err = ''Batch processing cancelled or timed out''\<rparr>]"
  by (simp add: processBatchOCR_def item_def draw0_def worker_def processOCR_def
        synth_text_def float32_0_7_def randomTexts_def backfill.simps zero_APIResponse_def)


section \<open>Errors of one item in a batch\<close>

text \<open>
  Claim C8, as stated: whenever \<open>processOCR\<close> returns an error for an item, the 500 the
  goroutine makes of it is delivered into the item's slot. An error is only returned
  once the context is done, and then the collecting loop may take \<open>ctx.Done()\<close> in every
  iteration that is left: with two items that both lose their race and a loop that
  observes the cancellation twice, both goroutines send a 500 and neither is received;
  the slots hold the 408 placeholder.
\<close>

theorem worker_error_not_received:
  "valid_run True [item ''a'', item ''b''] [(CtxDoneFirst, draw0), (CtxDoneFirst, draw0)]
     [CtxDone, CtxDone] \<and>
   processOCR Canceled CtxDoneFirst draw0 (req_Key (item ''a'')) (req_URL (item ''a'')) =
     (\<lparr>Key = ''a'', StatusCode = 408, Body = [],
       Err = ''Procesamiento cancelado por timeout''\<rparr>, Some Canceled) \<and>
   launch Canceled 0 [item ''a'', item ''b''] [(CtxDoneFirst, draw0), (CtxDoneFirst, draw0)] =
     [(0, \<lparr>Key = ''a'', StatusCode = 500, Body = [], Err = ''context canceled''\<rparr>),
      (1, \<lparr>Key = ''b'', StatusCode = 500, Body = [], Err = ''context canceled''\<rparr>)] \<and>
   processBatchOCR Canceled [item ''a'', item ''b'']
     [(CtxDoneFirst, draw0), (CtxDoneFirst, draw0)] [CtxDone, CtxDone] =
     Some [\<lparr>Key = ''a'', StatusCode = 408, Body = [],
             Err = ''Batch processing cancelled or timed out''\<rparr>,
           \<lparr>Key = ''b'', StatusCode = 408, Body = [],
             Err = ''Batch processing cancelled or timed out''\<rparr>]"
  by (simp add: valid_run_def processBatchOCR_def item_def worker_def processOCR_def
        backfill.simps zero_APIResponse_def)

text \<open>
  Claim C8, amended. When \<open>processOCR\<close> returns an error for item \<open>i\<close> of a batch whose
  keys are not empty, the goroutine of that item sends, tagged with \<open>i\<close>, a response with
  the item's key, status 500, an empty text and the text of the error. The batch still
  returns one entry per item; if the collecting loop receives that message, slot \<open>i\<close> of
  the returned results holds that response; and every other slot of the returned results
  is what it would be had item \<open>i\<close> ended in any other way.
\<close>

theorem worker_error_received:
  assumes "valid_run cancelled items rds sched"
    and "\<forall>it \<in> set items. req_Key it \<noteq> []"
    and "i < length items"
    and "snd (processOCR e (fst (rds ! i)) (snd (rds ! i)) (req_Key (items ! i)) (req_URL (items ! i)))
           = Some err"
  shows
    "launch e 0 items rds ! i =
       (i, \<lparr>Key = req_Key (items ! i), StatusCode = 500, Body = [], Err = error_text err\<rparr>) \<and>
     (\<exists>rs. processBatchOCR e items rds sched = Some rs \<and> length rs = length items \<and>
        (i \<in> set (recvs sched) \<longrightarrow>
           rs ! i = \<lparr>Key = req_Key (items ! i), StatusCode = 500, Body = [],
                      Err = error_text err\<rparr>) \<and>
        (\<forall>rd'. \<exists>rs'. processBatchOCR e items (rds[i := rd']) sched = Some rs' \<and>
           length rs' = length items \<and>
           (\<forall>k < length items. k \<noteq> i \<longrightarrow> rs' ! k = rs ! k)))"
proof -
  from assms(1) have lr: "length rds = length items" and ls: "length items \<le> 0 + length sched"
    by (simp_all add: valid_run_def)
  have w: "worker e i (items ! i) (rds ! i) =
       (i, \<lparr>Key = req_Key (items ! i), StatusCode = 500, Body = [], Err = error_text err\<rparr>)"
    using assms(4) by (auto simp: worker_def split: prod.splits option.splits)
  have msg: "launch e 0 items rds ! i =
       (i, \<lparr>Key = req_Key (items ! i), StatusCode = 500, Body = [], Err = error_text err\<rparr>)"
    using launch_nth [of i items rds e 0] assms(3) lr w by simp
  obtain rs where rs: "processBatchOCR e items rds sched = Some rs"
    and len: "length rs = length items"
    and got: "\<forall>k \<in> set (recvs sched). rs ! k = snd (worker e k (items ! k) (rds ! k))"
    using received_slots [OF assms(1,2), of e] by blast
  have mine: "i \<in> set (recvs sched) \<longrightarrow>
      rs ! i = \<lparr>Key = req_Key (items ! i), StatusCode = 500, Body = [], Err = error_text err\<rparr>"
    using got w by auto
  have others: "\<exists>rs'. processBatchOCR e items (rds[i := rd']) sched = Some rs' \<and>
           length rs' = length items \<and> (\<forall>k < length items. k \<noteq> i \<longrightarrow> rs' ! k = rs ! k)" for rd'
  proof -
    obtain rs' where rs': "collect items (launch e 0 items (rds[i := rd'])) 0 sched
                             (replicate (length items) zero_APIResponse) = Some rs'"
      using collect_returns [OF ls] by blast
    then have run: "processBatchOCR e items (rds[i := rd']) sched = Some rs'"
      by (simp add: processBatchOCR_def)
    have "length rs' = length items"
      using collect_length [OF rs'] by simp
    moreover have "\<forall>k < length items. k \<noteq> i \<longrightarrow> rs' ! k = rs ! k"
      by (rule sibling_slots [OF assms(1) rs run])
    ultimately show ?thesis using run by blast
  qed
  show ?thesis
    using msg rs len mine others by blast
qed

theorem worker_error_received_witness:
  "valid_run True [item ''a'', item ''b''] [(DelayElapsed, draw0), (CtxDoneFirst, draw0)]
     [CtxDone, Recv 1] \<and>
   launch DeadlineExceeded 0 [item ''a'', item ''b'']
       [(DelayElapsed, draw0), (CtxDoneFirst, draw0)] ! 1 =
     (1, \<lparr>Key = ''b'', StatusCode = 500, Body = [], Err = ''context deadline exceeded''\<rparr>) \<and>
   (\<exists>rs. processBatchOCR DeadlineExceeded [item ''a'', item ''b'']
            [(DelayElapsed, draw0), (CtxDoneFirst, draw0)] [CtxDone, Recv 1] = Some rs \<and>
         rs ! 1 = \<lparr>Key = ''b'', StatusCode = 500, Body = [], Err = ''context deadline exceeded''\<rparr>)"
proof -
  have v: "valid_run True [item ''a'', item ''b''] [(DelayElapsed, draw0), (CtxDoneFirst, draw0)]
     [CtxDone, Recv 1]"
    by (simp add: valid_run_def)
  have keys: "\<forall>it \<in> set [item ''a'', item ''b'']. req_Key it \<noteq> []"
    by (simp add: item_def)
  have i: "(1::nat) < length [item ''a'', item ''b'']"
    by simp
  have err: "snd (processOCR DeadlineExceeded
                  (fst ([(DelayElapsed, draw0), (CtxDoneFirst, draw0)] ! 1))
                  (snd ([(DelayElapsed, draw0), (CtxDoneFirst, draw0)] ! 1))
                  (req_Key ([item ''a'', item ''b''] ! 1))
                  (req_URL ([item ''a'', item ''b''] ! 1))) = Some DeadlineExceeded"
    by (simp add: processOCR_def)
  have k: "req_Key (item ''b'') = ''b''"
    by (simp add: item_def)
  show ?thesis
    using v worker_error_received [OF v keys i err] by (auto simp: k)
qed

end
